theory Spec2Isabelle
  imports Main "HOL-Library.AList" "HOL-Library.Multiset"
begin

section \<open>Python strings\<close>

text \<open>
  Strings are \<^typ>\<open>string\<close>. The helpers below are the \<open>str\<close> methods that
  \<open>crawler.py\<close> and \<open>urllib.parse\<close> use: \<open>startswith\<close>, \<open>in\<close>,
  \<open>split(sep, 1)\<close>, \<open>split(sep)\<close>, \<open>join\<close>, \<open>lower\<close> on ASCII letters.
\<close>

definition startswith :: "string \<Rightarrow> string \<Rightarrow> bool" where
  "startswith s p = (take (length p) s = p)"

definition before :: "char \<Rightarrow> string \<Rightarrow> string" where
  "before c s = takeWhile (\<lambda>x. x \<noteq> c) s"

definition after :: "char \<Rightarrow> string \<Rightarrow> string" where
  "after c s = drop 1 (dropWhile (\<lambda>x. x \<noteq> c) s)"

fun split_on :: "char \<Rightarrow> string \<Rightarrow> string list" where
  "split_on c [] = [[]]"
| "split_on c (x # xs) =
     (if x = c then [] # split_on c xs
      else (case split_on c xs of [] \<Rightarrow> [[x]] | w # ws \<Rightarrow> (x # w) # ws))"

fun join :: "string \<Rightarrow> string list \<Rightarrow> string" where
  "join sep [] = []"
| "join sep [w] = w"
| "join sep (w # v # ws) = w @ sep @ join sep (v # ws)"

definition ascii_upper :: string where
  "ascii_upper = ''ABCDEFGHIJKLMNOPQRSTUVWXYZ''"

definition ascii_lower :: string where
  "ascii_lower = ''abcdefghijklmnopqrstuvwxyz''"

definition lower_char :: "char \<Rightarrow> char" where
  "lower_char c = (case map_of (zip ascii_upper ascii_lower) c of None \<Rightarrow> c | Some l \<Rightarrow> l)"

definition lower :: "string \<Rightarrow> string" where
  "lower s = map lower_char s"

definition isalpha_ascii :: "char \<Rightarrow> bool" where
  "isalpha_ascii c = (c \<in> set ascii_upper \<or> c \<in> set ascii_lower)"

section \<open>The part of \<open>urllib.parse\<close> that the crawler calls\<close>

text \<open>
  The crawler imports \<open>urlparse\<close>, \<open>urlsplit\<close>, \<open>urlunsplit\<close>, \<open>urljoin\<close> and
  \<open>urldefrag\<close>. They are modelled after the CPython algorithms on \<open>str\<close> arguments with
  \<open>allow_fragments = True\<close>. A parse that raises \<open>ValueError\<close> is \<open>None\<close>. Two things
  the library does are left out: it removes leading control characters and spaces and
  every tab, carriage return and line feed before parsing, and it checks the text between
  brackets in a network location to be an IP literal. Only the balance of the brackets is
  checked here.
\<close>

definition scheme_chars :: string where
  "scheme_chars = ascii_lower @ ascii_upper @ ''0123456789+-.''"

definition uses_relative :: "string list" where
  "uses_relative = ['''', ''ftp'', ''http'', ''gopher'', ''nntp'', ''imap'', ''wais'', ''file'',
     ''https'', ''shttp'', ''mms'', ''prospero'', ''rtsp'', ''rtsps'', ''rtspu'', ''sftp'',
     ''svn'', ''svn+ssh'', ''ws'', ''wss'']"

definition uses_netloc :: "string list" where
  "uses_netloc = ['''', ''ftp'', ''http'', ''gopher'', ''nntp'', ''telnet'', ''imap'', ''wais'',
     ''file'', ''mms'', ''https'', ''shttp'', ''snews'', ''prospero'', ''rtsp'', ''rtsps'',
     ''rtspu'', ''rsync'', ''svn'', ''svn+ssh'', ''sftp'', ''nfs'', ''git'', ''git+ssh'',
     ''ws'', ''wss'']"

definition uses_params :: "string list" where
  "uses_params = ['''', ''ftp'', ''hdl'', ''prospero'', ''http'', ''imap'', ''https'', ''shttp'',
     ''rtsp'', ''rtsps'', ''rtspu'', ''sip'', ''sips'', ''mms'', ''sftp'', ''tel'']"

type_synonym SplitResult = "string \<times> string \<times> string \<times> string \<times> string"
type_synonym ParseResult = "string \<times> string \<times> string \<times> string \<times> string \<times> string"

text \<open>
  \<open>_splitnetloc(url, 2)\<close>: the network location runs from position 2 to the first of
  \<open>/\<close>, \<open>?\<close>, \<open>#\<close>.
\<close>

definition is_delim :: "char \<Rightarrow> bool" where
  "is_delim c = (c = CHR ''/'' \<or> c = CHR ''?'' \<or> c = CHR ''#'')"

definition splitnetloc :: "string \<Rightarrow> string \<times> string" where
  "splitnetloc url =
     (takeWhile (\<lambda>c. \<not> is_delim c) (drop 2 url), dropWhile (\<lambda>c. \<not> is_delim c) (drop 2 url))"

definition invalid_netloc :: "string \<Rightarrow> bool" where
  "invalid_netloc n =
     ((CHR ''['' \<in> set n \<and> CHR '']'' \<notin> set n) \<or> (CHR '']'' \<in> set n \<and> CHR ''['' \<notin> set n))"

definition split_scheme :: "string \<Rightarrow> string \<Rightarrow> string \<times> string" where
  "split_scheme url scheme =
     (if CHR '':'' \<in> set url \<and> before CHR '':'' url \<noteq> [] \<and> isalpha_ascii (hd url)
         \<and> list_all (\<lambda>c. c \<in> set scheme_chars) (before CHR '':'' url)
      then (lower (before CHR '':'' url), after CHR '':'' url)
      else (scheme, url))"

definition urlsplit :: "string \<Rightarrow> string \<Rightarrow> SplitResult option" where
  "urlsplit url0 scheme0 =
     (let (scheme, url1) = split_scheme url0 scheme0;
          (netloc, url2) = (if take 2 url1 = ''//'' then splitnetloc url1 else ('''', url1));
          (url3, fragment) =
            (if CHR ''#'' \<in> set url2 then (before CHR ''#'' url2, after CHR ''#'' url2)
             else (url2, ''''));
          (url4, query) =
            (if CHR ''?'' \<in> set url3 then (before CHR ''?'' url3, after CHR ''?'' url3)
             else (url3, ''''))
      in if invalid_netloc netloc then None
         else Some (scheme, netloc, url4, query, fragment))"

definition urlunsplit :: "SplitResult \<Rightarrow> string" where
  "urlunsplit c =
     (case c of (scheme, netloc, url0, query, fragment) \<Rightarrow>
        let url1 =
              (if netloc \<noteq> '''' \<or> (scheme \<noteq> '''' \<and> scheme \<in> set uses_netloc)
                  \<or> take 2 url0 = ''//''
               then ''//'' @ netloc @
                      (if url0 \<noteq> '''' \<and> take 1 url0 \<noteq> ''/'' then ''/'' @ url0 else url0)
               else url0);
            url2 = (if scheme \<noteq> '''' then scheme @ '':'' @ url1 else url1);
            url3 = (if query \<noteq> '''' then url2 @ ''?'' @ query else url2)
        in if fragment \<noteq> '''' then url3 @ ''#'' @ fragment else url3)"

text \<open>
  \<open>_splitparams\<close>: the parameters start at the first \<open>;\<close> of the last path segment.
  When the path has no \<open>/\<close> and no \<open>;\<close>, Python's \<open>find\<close> gives \<open>-1\<close> and the
  slices \<open>url[:-1]\<close>, \<open>url[0:]\<close> result; \<open>urlparse\<close> calls it only when a \<open>;\<close>
  is present.
\<close>

definition last_segment :: "string \<Rightarrow> string" where
  "last_segment url = rev (takeWhile (\<lambda>c. c \<noteq> CHR ''/'') (rev url))"

definition splitparams :: "string \<Rightarrow> string \<times> string" where
  "splitparams url =
     (if CHR ''/'' \<in> set url
      then (if CHR '';'' \<in> set (last_segment url)
            then (take (length url - length (last_segment url)) url
                    @ before CHR '';'' (last_segment url),
                  after CHR '';'' (last_segment url))
            else (url, ''''))
      else (if CHR '';'' \<in> set url then (before CHR '';'' url, after CHR '';'' url)
            else (butlast url, url)))"

definition urlparse :: "string \<Rightarrow> string \<Rightarrow> ParseResult option" where
  "urlparse url scheme0 =
     (case urlsplit url scheme0 of
        None \<Rightarrow> None
      | Some (scheme, netloc, path, query, fragment) \<Rightarrow>
          if scheme \<in> set uses_params \<and> CHR '';'' \<in> set path
          then (case splitparams path of (path', params) \<Rightarrow>
                  Some (scheme, netloc, path', params, query, fragment))
          else Some (scheme, netloc, path, '''', query, fragment))"

definition urlunparse :: "ParseResult \<Rightarrow> string" where
  "urlunparse c =
     (case c of (scheme, netloc, url, params, query, fragment) \<Rightarrow>
        urlunsplit (scheme, netloc, (if params \<noteq> '''' then url @ '';'' @ params else url),
                    query, fragment))"

definition netloc :: "ParseResult \<Rightarrow> string" where
  "netloc p = (case p of (scheme, n, rest) \<Rightarrow> n)"

text \<open>\<open>urldefrag(url).url\<close>.\<close>

definition urldefrag_url :: "string \<Rightarrow> string option" where
  "urldefrag_url url =
     (if CHR ''#'' \<in> set url
      then (case urlparse url '''' of
              None \<Rightarrow> None
            | Some (s, n, p, a, q, frag) \<Rightarrow> Some (urlunparse (s, n, p, a, q, '''')))
      else Some url)"

text \<open>
  \<open>urljoin\<close>. The loop over the segments pops on \<open>..\<close> (ignoring an empty stack),
  skips \<open>.\<close> and appends anything else; \<open>resolve_segments\<close> carries the stack reversed.
\<close>

fun resolve_segments :: "string list \<Rightarrow> string list \<Rightarrow> string list" where
  "resolve_segments [] acc = rev acc"
| "resolve_segments (seg # segs) acc =
     (if seg = ''..'' then resolve_segments segs (tl acc)
      else if seg = ''.'' then resolve_segments segs acc
      else resolve_segments segs (seg # acc))"

text \<open>\<open>segments[1:-1] = filter(None, segments[1:-1])\<close>.\<close>

definition filter_inner :: "string list \<Rightarrow> string list" where
  "filter_inner segs =
     (if length segs < 2 then segs
      else hd segs # filter (\<lambda>s. s \<noteq> '''') (butlast (tl segs)) @ [last segs])"

definition urljoin :: "string \<Rightarrow> string \<Rightarrow> string option" where
  "urljoin base url =
     (if base = '''' then Some url
      else if url = '''' then Some base
      else
        case urlparse base '''' of
          None \<Rightarrow> None
        | Some (bscheme, bnetloc, bpath, bparams, bquery, bfragment) \<Rightarrow>
           (case urlparse url bscheme of
              None \<Rightarrow> None
            | Some (scheme, netloc0, path, params, query, fragment) \<Rightarrow>
                if scheme \<noteq> bscheme \<or> scheme \<notin> set uses_relative then Some url
                else if scheme \<in> set uses_netloc \<and> netloc0 \<noteq> ''''
                then Some (urlunparse (scheme, netloc0, path, params, query, fragment))
                else
                  let netloc1 = (if scheme \<in> set uses_netloc then bnetloc else netloc0) in
                  if path = '''' \<and> params = ''''
                  then Some (urlunparse (scheme, netloc1, bpath, bparams,
                               (if query = '''' then bquery else query), fragment))
                  else
                    let base_parts0 = split_on CHR ''/'' bpath;
                        base_parts = (if last base_parts0 \<noteq> '''' then butlast base_parts0
                                      else base_parts0);
                        segments = (if take 1 path = ''/'' then split_on CHR ''/'' path
                                    else filter_inner (base_parts @ split_on CHR ''/'' path));
                        resolved0 = resolve_segments segments [];
                        resolved = (if last segments = ''.'' \<or> last segments = ''..''
                                    then resolved0 @ [''''] else resolved0);
                        joined = join ''/'' resolved
                    in Some (urlunparse (scheme, netloc1,
                               (if joined = '''' then ''/'' else joined),
                               params, query, fragment))))"

section \<open>Data model of \<open>crawler.py\<close>\<close>

text \<open>The named tuples \<open>Task\<close> and \<open>ResponseResult\<close>.\<close>

record Task =
  url :: string
  collect_links :: bool

record ResponseResult =
  url :: string
  status :: "int option"
  error :: string
  links :: "string list"
  redirect :: string

text \<open>
  The value stored in \<open>processed_urls\<close> for a fetched URL is the dictionary
  \<open>{'status': ..., 'error': ...}\<close>; a URL that is only known (a task was put for it, or
  it was the final URL of a response) has the value \<open>None\<close>. The dictionary
  \<open>processed_urls\<close> keeps its keys in insertion order, so it is an association list
  updated with \<^const>\<open>AList.update\<close>: an existing key keeps its place, a new one goes
  to the end.
\<close>

record Outcome =
  status :: "int option"
  error :: string

type_synonym frontier = "(string \<times> Outcome option) list"

definition known :: "frontier \<Rightarrow> string \<Rightarrow> bool" where
  "known processed_urls u = (u \<in> fst ` set processed_urls)"

section \<open>The HTTP client and the page\<close>

text \<open>
  A page, once decoded, is what \<open>HTMLParser.feed\<close> reports to \<open>handle_starttag\<close>:
  the start tags in document order, each with its attributes.
\<close>

type_synonym starttag = "string \<times> (string \<times> string) list"
type_synonym page = "starttag list"

text \<open>
  What \<open>urlopen\<close> hands back: the status, the URL finally fetched, the charset of the
  \<open>Content-Type\<close> header if any, and the body. The body is given by what
  \<open>response.read().decode(charset)\<close> yields for each charset name: the page, or
  \<open>None\<close> when decoding raises (\<open>UnicodeDecodeError\<close>, \<open>LookupError\<close>).
\<close>

record HTTPResponse =
  status :: int
  reason :: string
  geturl :: string
  content_charset :: "string option"
  decode :: "string \<Rightarrow> page option"

text \<open>
  The web is a function from the requested URL to what happens on the wire:
  no answer (\<open>urlopen\<close> raises \<open>URLError\<close> with the reason), an answer after all
  redirects were followed, or a failure of another kind (for example the
  \<open>ValueError\<close> of \<open>Request\<close> for a URL without a scheme).
\<close>

datatype exchange = Unreachable string | Answer HTTPResponse | Broken

type_synonym web = "string \<Rightarrow> exchange"

datatype opened = Raise_HTTPError string | Raise_URLError string | Raise_other
  | Return HTTPResponse

text \<open>
  \<open>urlopen\<close> with the default opener: \<open>HTTPErrorProcessor\<close> passes an answer
  through only when its status is 2xx; every other final status is raised as
  \<open>HTTPError\<close>.
\<close>

definition urlopen :: "web \<Rightarrow> string \<Rightarrow> opened" where
  "urlopen w u =
     (case w u of
        Unreachable r \<Rightarrow> Raise_URLError r
      | Broken \<Rightarrow> Raise_other
      | Answer response \<Rightarrow>
          if 200 \<le> HTTPResponse.status response \<and> HTTPResponse.status response < 300
          then Return response
          else Raise_HTTPError (reason response))"

section \<open>The functions of \<open>crawler.py\<close>\<close>

subsection \<open>\<open>LinkParser\<close>\<close>

definition handle_starttag :: "string list \<Rightarrow> string \<Rightarrow> (string \<times> string) list \<Rightarrow> string list" where
  "handle_starttag self_links tag attrs =
     (if tag = ''a''
      then self_links @ map snd (filter (\<lambda>(attr, v). attr = ''href'') attrs)
      else self_links)"

definition get_links :: "page \<Rightarrow> string list" where
  "get_links pg = foldl (\<lambda>self_links (tag, attrs). handle_starttag self_links tag attrs) [] pg"

subsection \<open>URL helpers\<close>

definition restore_relative_url :: "string \<Rightarrow> string \<Rightarrow> string option" where
  "restore_relative_url relative_url root_url = urljoin root_url relative_url"

definition clean_fragments :: "string \<Rightarrow> string option" where
  "clean_fragments u = urldefrag_url u"

definition is_relative :: "string \<Rightarrow> bool option" where
  "is_relative relative_url =
     (case urlparse relative_url '''' of
        None \<Rightarrow> None
      | Some p \<Rightarrow> Some (netloc p = ''''))"

definition is_same_domain :: "string \<Rightarrow> string \<Rightarrow> bool option" where
  "is_same_domain u root_url =
     (case urlparse u '''' of
        None \<Rightarrow> None
      | Some pu \<Rightarrow>
         (case urlparse root_url '''' of
            None \<Rightarrow> None
          | Some pr \<Rightarrow> Some (netloc pu \<noteq> '''' \<and> netloc pu = netloc pr)))"

definition get_base_url :: "string \<Rightarrow> string option" where
  "get_base_url base_url_string =
     (let s = (if \<not> (startswith base_url_string ''http://''
                      \<or> startswith base_url_string ''https://'')
               then ''http://'' @ base_url_string else base_url_string)
      in case urlsplit s '''' of
           None \<Rightarrow> None
         | Some (scheme, nl, path, query, fragment) \<Rightarrow>
             Some (urlunsplit (scheme, nl, path, '''', '''')))"

definition last_two :: "'a list \<Rightarrow> 'a list" where
  "last_two xs = drop (length xs - 2) xs"

definition get_root_url :: "string \<Rightarrow> string option" where
  "get_root_url base_url_string =
     (case urlparse base_url_string '''' of
        None \<Rightarrow> None
      | Some (scheme, nl, rest) \<Rightarrow>
          let domain = join ''.'' (last_two (split_on CHR ''.'' nl))
          in Some (urlunsplit (scheme, domain, '''', '''', '''')))"

subsection \<open>\<open>process_page\<close>\<close>

text \<open>
  An exception that \<open>process_page\<close> does not catch leaves it and the worker's
  \<open>run\<close>: the worker thread ends without a result and without \<open>task_done\<close>.
\<close>

datatype uncaught = DecodeError | OtherError

definition process_page :: "web \<Rightarrow> string \<Rightarrow> bool \<Rightarrow> uncaught + ResponseResult" where
  "process_page w u collect =
     (case urlopen w u of
        Return response \<Rightarrow>
          if HTTPResponse.status response < 400 \<and> collect
          then
            (let charset = (case content_charset response of
                              None \<Rightarrow> ''utf-8''
                            | Some c \<Rightarrow> if c = '''' then ''utf-8'' else c)
             in case decode response charset of
                  None \<Rightarrow> Inl DecodeError
                | Some pg \<Rightarrow>
                    Inr \<lparr>ResponseResult.url = u,
                         status = Some (HTTPResponse.status response), error = '''',
                         links = get_links pg, redirect = geturl response\<rparr>)
          else Inr \<lparr>ResponseResult.url = u,
                    status = Some (HTTPResponse.status response), error = '''',
                    links = [], redirect = geturl response\<rparr>
      | Raise_HTTPError r \<Rightarrow>
          Inr \<lparr>ResponseResult.url = u, status = None, error = ''Server error: '' @ r,
               links = [], redirect = ''''\<rparr>
      | Raise_URLError r \<Rightarrow>
          Inr \<lparr>ResponseResult.url = u, status = None, error = ''Network error: '' @ r,
               links = [], redirect = ''''\<rparr>
      | Raise_other \<Rightarrow> Inl OtherError)"

subsection \<open>\<open>print_results\<close>\<close>

fun digits :: "nat \<Rightarrow> string" where
  "digits n =
     (if n < 10 then [''0123456789'' ! n]
      else digits (n div 10) @ [''0123456789'' ! (n mod 10)])"

definition str_int :: "int \<Rightarrow> string" where
  "str_int i = (if i < 0 then ''-'' @ digits (nat (- i)) else digits (nat i))"

definition str_status :: "int option \<Rightarrow> string" where
  "str_status s = (case s of None \<Rightarrow> ''None'' | Some i \<Rightarrow> str_int i)"

definition format_line :: "string \<Rightarrow> Outcome \<Rightarrow> string" where
  "format_line u data =
     [CHR 0x22] @ u @ [CHR 0x22] @ '' status:'' @ str_status (Outcome.status data)
       @ '' error:'' @ Outcome.error data"

text \<open>
  The loop of \<open>print_results\<close> over \<open>processed_urls.items()\<close>, with the lines printed so
  far. \<open>Inr out\<close> is a normal return after printing \<open>out\<close>; \<open>Inl out\<close> is the
  \<open>TypeError\<close> of \<open>None > 400\<close>, raised after \<open>out\<close> was printed.
\<close>

fun print_loop :: "string list \<Rightarrow> frontier \<Rightarrow> string list + string list" where
  "print_loop out [] = Inr out"
| "print_loop out ((u, data) # rest) =
     (case data of
        None \<Rightarrow> print_loop out rest
      | Some d \<Rightarrow>
          if Outcome.error d \<noteq> '''' then print_loop (out @ [format_line u d]) rest
          else (case Outcome.status d of
                  None \<Rightarrow> Inl out
                | Some s \<Rightarrow>
                    if s > 400 then print_loop (out @ [format_line u d]) rest
                    else print_loop out rest))"

definition print_results :: "frontier \<Rightarrow> string list + string list" where
  "print_results processed_urls = print_loop [''Bad or broken links:''] processed_urls"

subsection \<open>\<open>main\<close>: the coordinator\<close>

text \<open>
  The variables of \<open>main\<close> that its loop changes. \<open>task_queue\<close> holds the tasks put
  since the last \<open>task_queue.join()\<close>.
\<close>

record coord =
  processed_urls :: frontier
  task_queue :: "Task list"
  has_tasks :: bool
  num :: nat

text \<open>
  A \<open>ValueError\<close> of the URL functions is not caught in \<open>main\<close>: it ends the main thread
  in the state reached so far.
\<close>

datatype drained = Continue coord | ValueError coord

definition skipped :: "string \<Rightarrow> bool" where
  "skipped link =
     (link = '''' \<or> startswith link ''javascript:'' \<or> startswith link ''mailto:''
        \<or> startswith link ''whatsapp:'')"

text \<open>Lines 223 to 227: the base against which a relative link is resolved.\<close>

definition resolve_link :: "ResponseResult \<Rightarrow> string \<Rightarrow> string option" where
  "resolve_link result link =
     (case is_relative link of
        None \<Rightarrow> None
      | Some rel \<Rightarrow>
          if rel
          then (if redirect result \<noteq> ''''
                then restore_relative_url link (ResponseResult.url result)
                else restore_relative_url link (redirect result))
          else Some link)"

text \<open>The body of \<open>for link in result.links\<close>.\<close>

definition expand_link :: "string \<Rightarrow> ResponseResult \<Rightarrow> coord \<Rightarrow> string \<Rightarrow> drained" where
  "expand_link root_url result st link0 =
     (case clean_fragments link0 of
        None \<Rightarrow> ValueError st
      | Some link1 \<Rightarrow>
          if skipped link1 then Continue st
          else
            (case resolve_link result link1 of
               None \<Rightarrow> ValueError st
             | Some link \<Rightarrow>
                 if \<not> known (processed_urls st) link
                 then
                   (let st1 = st\<lparr>processed_urls := AList.update link None (processed_urls st),
                                  has_tasks := True, num := num st + 1\<rparr>
                    in case is_same_domain link root_url of
                         None \<Rightarrow> ValueError st1
                       | Some same \<Rightarrow>
                           Continue (st1\<lparr>task_queue := task_queue st1
                                         @ [\<lparr>Task.url = link, collect_links = same\<rparr>]\<rparr>))
                 else Continue st))"

fun expand_links :: "string \<Rightarrow> ResponseResult \<Rightarrow> coord \<Rightarrow> string list \<Rightarrow> drained" where
  "expand_links root_url result st [] = Continue st"
| "expand_links root_url result st (link # rest) =
     (case expand_link root_url result st link of
        ValueError st' \<Rightarrow> ValueError st'
      | Continue st' \<Rightarrow> expand_links root_url result st' rest)"

text \<open>The body of \<open>while not result_queue.empty()\<close> for one result (lines 213 to 235).\<close>

definition outcome_of :: "ResponseResult \<Rightarrow> Outcome" where
  "outcome_of result =
     \<lparr>Outcome.status = ResponseResult.status result, error = ResponseResult.error result\<rparr>"

definition record_result :: "frontier \<Rightarrow> ResponseResult \<Rightarrow> frontier" where
  "record_result processed result =
     (let p1 = AList.update (ResponseResult.url result) (Some (outcome_of result)) processed;
          p2 = (if redirect result \<noteq> '''' then AList.update (redirect result) None p1 else p1)
      in AList.update (ResponseResult.url result) (Some (outcome_of result)) p2)"

definition handle_result :: "string \<Rightarrow> coord \<Rightarrow> ResponseResult \<Rightarrow> drained" where
  "handle_result root_url st result =
     expand_links root_url result
       (st\<lparr>processed_urls := record_result (processed_urls st) result\<rparr>) (links result)"

fun drain :: "string \<Rightarrow> coord \<Rightarrow> ResponseResult list \<Rightarrow> drained" where
  "drain root_url st [] = Continue st"
| "drain root_url st (result # rest) =
     (case handle_result root_url st result of
        ValueError st' \<Rightarrow> ValueError st'
      | Continue st' \<Rightarrow> drain root_url st' rest)"

text \<open>
  \<open>task_queue.join()\<close>: the workers run \<open>process_page\<close> on every task put. When one
  of these calls raises, its worker ends without \<open>task_done\<close> and \<open>join\<close> never
  returns: \<open>None\<close>. Otherwise every result is in \<open>result_queue\<close>.
\<close>

fun run_workers :: "web \<Rightarrow> Task list \<Rightarrow> ResponseResult list option" where
  "run_workers w [] = Some []"
| "run_workers w (t # ts) =
     (case process_page w (Task.url t) (collect_links t) of
        Inl e \<Rightarrow> None
      | Inr r \<Rightarrow> map_option ((#) r) (run_workers w ts))"

text \<open>
  How a run of \<open>main\<close> ends: \<open>DONE\<close> after the stop signals, with the final
  \<open>processed_urls\<close>, what \<open>print_results\<close> did and every task put; \<open>HANG\<close> when
  \<open>join\<close> blocks for ever; \<open>CRASH\<close> when the main thread ends with a \<open>ValueError\<close>;
  \<open>EXIT1\<close> for \<open>return 1\<close>. A loop that runs for ever is \<open>None\<close>.
\<close>

datatype run =
    DONE frontier "string list + string list" "Task list"
  | HANG frontier "Task list"
  | CRASH frontier "Task list"
  | EXIT1

text \<open>
  One pass of \<open>while has_tasks\<close>: drain the results, then join. The workers put the
  results of one batch of tasks in the order in which they finish; \<open>order\<close> is that
  order. A pass drains the results of the tasks put in the pass before it: the results of
  the tasks it puts itself are taken to arrive by the join that ends it, not while it
  still drains.
\<close>

definition pass :: "web \<Rightarrow> string \<Rightarrow> frontier \<times> Task list \<times> ResponseResult list
    \<Rightarrow> run + frontier \<times> Task list \<times> ResponseResult list" where
  "pass w root_url s =
     (case s of (processed, put, results) \<Rightarrow>
        (case drain root_url
                \<lparr>processed_urls = processed, task_queue = [], has_tasks = False, num = 0\<rparr>
                results of
           ValueError st \<Rightarrow> Inl (CRASH (processed_urls st) (put @ task_queue st))
         | Continue st \<Rightarrow>
             (case run_workers w (task_queue st) of
                None \<Rightarrow> Inl (HANG (processed_urls st) (put @ task_queue st))
              | Some rs \<Rightarrow>
                  if has_tasks st then Inr (processed_urls st, put @ task_queue st, rs)
                  else Inl (DONE (processed_urls st) (print_results (processed_urls st))
                              (put @ task_queue st)))))"

partial_function (option) main_loop ::
  "web \<Rightarrow> (ResponseResult list \<Rightarrow> ResponseResult list) \<Rightarrow> string
     \<Rightarrow> frontier \<times> Task list \<times> ResponseResult list \<Rightarrow> run option" where
  "main_loop w order root_url s =
     (case pass w root_url s of
        Inl r \<Rightarrow> Some r
      | Inr (processed, put, rs) \<Rightarrow> main_loop w order root_url (processed, put, order rs))"

declare main_loop.simps [code]

text \<open>
  \<open>main\<close> up to the first \<open>task_queue.join()\<close> (lines 176 to 202): either the run
  ends there, or the loop starts with the root URL, an empty \<open>processed_urls\<close>, the
  seed task put, and its result in \<open>result_queue\<close>.
\<close>

definition seeding :: "web \<Rightarrow> string
    \<Rightarrow> run + string \<times> frontier \<times> Task list \<times> ResponseResult list" where
  "seeding w base_url_string =
     (case get_base_url base_url_string of
        None \<Rightarrow> Inl (CRASH [] [])
      | Some base_url \<Rightarrow>
          if base_url = '''' then Inl EXIT1
          else
            (case get_root_url base_url of
               None \<Rightarrow> Inl (CRASH [] [])
             | Some root_url \<Rightarrow>
                 (case run_workers w [\<lparr>Task.url = base_url, collect_links = True\<rparr>] of
                    None \<Rightarrow> Inl (HANG [] [\<lparr>Task.url = base_url, collect_links = True\<rparr>])
                  | Some rs \<Rightarrow>
                      Inr (root_url, [],
                           [\<lparr>Task.url = base_url, collect_links = True\<rparr>], rs))))"

definition main :: "web \<Rightarrow> (ResponseResult list \<Rightarrow> ResponseResult list) \<Rightarrow> string \<Rightarrow> run option" where
  "main w order base_url_string =
     (case seeding w base_url_string of
        Inl r \<Rightarrow> Some r
      | Inr (root_url, processed, put, rs) \<Rightarrow>
          main_loop w order root_url (processed, put, order rs))"

text \<open>
  The loop after \<open>n\<close> passes: the outcome if the run has ended by then, the loop state
  otherwise.
\<close>

fun after_passes :: "nat \<Rightarrow> web \<Rightarrow> (ResponseResult list \<Rightarrow> ResponseResult list) \<Rightarrow> string
    \<Rightarrow> frontier \<times> Task list \<times> ResponseResult list
    \<Rightarrow> run + frontier \<times> Task list \<times> ResponseResult list" where
  "after_passes 0 w order root_url s = Inr s"
| "after_passes (Suc n) w order root_url s =
     (case pass w root_url s of
        Inl r \<Rightarrow> Inl r
      | Inr (processed, put, rs) \<Rightarrow> after_passes n w order root_url (processed, put, order rs))"

text \<open>The order in which results arrive is a permutation of the batch.\<close>

definition is_schedule :: "(ResponseResult list \<Rightarrow> ResponseResult list) \<Rightarrow> bool" where
  "is_schedule order = (\<forall>rs. mset (order rs) = mset rs)"

text \<open>Every task put in a run that has ended.\<close>

fun tasks_of :: "run \<Rightarrow> Task list" where
  "tasks_of (DONE processed out put) = put"
| "tasks_of (HANG processed put) = put"
| "tasks_of (CRASH processed put) = put"
| "tasks_of EXIT1 = []"

definition state_of :: "drained \<Rightarrow> coord" where
  "state_of d = (case d of Continue st \<Rightarrow> st | ValueError st \<Rightarrow> st)"

definition urls_put :: "Task list \<Rightarrow> coord \<Rightarrow> string list" where
  "urls_put put st = map Task.url (put @ task_queue st)"

text \<open>
  The invariant behind the check \<open>link not in processed_urls\<close>: the URLs of the tasks
  put so far are pairwise different, and each is a key of \<open>processed_urls\<close>.
\<close>

definition tinv :: "Task list \<Rightarrow> coord \<Rightarrow> bool" where
  "tinv put st =
     (distinct (urls_put put st) \<and> set (urls_put put st) \<subseteq> fst ` set (processed_urls st))"

section \<open>Example inputs\<close>

text \<open>
  A page whose anchors have the given \<open>href\<close> values, decodable under every charset,
  and the answer 200 of a server that delivers it at the URL \<open>u\<close>.
\<close>

definition html :: "string list \<Rightarrow> string \<Rightarrow> page option" where
  "html hrefs charset = Some (map (\<lambda>h. (''a'', [(''href'', h)])) hrefs)"

definition ok :: "string \<Rightarrow> string list \<Rightarrow> exchange" where
  "ok u hrefs =
     Answer \<lparr>HTTPResponse.status = 200, reason = ''OK'', geturl = u,
             content_charset = None, decode = html hrefs\<rparr>"

definition idle :: coord where
  "idle = \<lparr>processed_urls = [], task_queue = [], has_tasks = False, num = 0\<rparr>"

definition fetched :: "string \<Rightarrow> string \<Rightarrow> string list \<Rightarrow> ResponseResult" where
  "fetched u final hrefs =
     \<lparr>ResponseResult.url = u, status = Some 200, error = '''', links = hrefs,
      redirect = final\<rparr>"

text \<open>
  The invariant at the start of a pass: the URLs of the tasks put are pairwise different,
  and each is a key of \<open>processed_urls\<close> or the URL of the first result to be drained
  (the seed's, before the first pass).
\<close>

definition pinv :: "frontier \<times> Task list \<times> ResponseResult list \<Rightarrow> bool" where
  "pinv s = (case s of (processed, put, results) \<Rightarrow>
     distinct (map Task.url put)
     \<and> set (map Task.url put) \<subseteq> fst ` set processed
          \<union> (case results of [] \<Rightarrow> {} | r # rest \<Rightarrow> {ResponseResult.url r}))"

text \<open>
  A small site: the seed page links to \<open>/b\<close> twice, to another host and to a mail
  address; \<open>/b\<close> redirects back to the seed page.
\<close>

definition site :: web where
  "site u =
     (if u = ''http://a.com/''
      then ok u [''/b'', ''http://x.org/#top'', ''mailto:x@y'', ''/b#top'']
      else if u = ''http://a.com/b'' then ok ''http://a.com/'' [''/b'']
      else if u = ''http://x.org/'' then ok u [''zzz'']
      else Unreachable ''no route'')"

definition site_frontier :: frontier where
  "site_frontier =
     [(''http://a.com/'', None),
      (''http://a.com/b'', Some \<lparr>Outcome.status = Some 200, error = ''''\<rparr>),
      (''http://x.org/'', Some \<lparr>Outcome.status = Some 200, error = ''''\<rparr>)]"

definition site_tasks :: "Task list" where
  "site_tasks =
     [\<lparr>Task.url = ''http://a.com/'', collect_links = True\<rparr>,
      \<lparr>Task.url = ''http://a.com/b'', collect_links = True\<rparr>,
      \<lparr>Task.url = ''http://x.org/'', collect_links = False\<rparr>]"

definition site_seeded :: "frontier \<times> Task list \<times> ResponseResult list" where
  "site_seeded =
     ([], [\<lparr>Task.url = ''http://a.com/'', collect_links = True\<rparr>],
      [fetched ''http://a.com/'' ''http://a.com/''
         [''/b'', ''http://x.org/#top'', ''mailto:x@y'', ''/b#top'']])"

definition site_after_one :: "frontier \<times> Task list \<times> ResponseResult list" where
  "site_after_one =
     ([(''http://a.com/'', Some \<lparr>Outcome.status = Some 200, error = ''''\<rparr>),
       (''http://a.com/b'', None), (''http://x.org/'', None)],
      site_tasks,
      [fetched ''http://a.com/b'' ''http://a.com/'' [''/b''],
       fetched ''http://x.org/'' ''http://x.org/'' []])"

text \<open>
  An outcome is classified when it has a status below 400 and no error text, or no
  status and an error text. A frontier is in order when every outcome in it is
  classified.
\<close>

definition classified :: "Outcome \<Rightarrow> bool" where
  "classified d =
     (case Outcome.status d of
        None \<Rightarrow> Outcome.error d \<noteq> ''''
      | Some s \<Rightarrow> s < 400 \<and> Outcome.error d = '''')"

definition frontier_ok :: "frontier \<Rightarrow> bool" where
  "frontier_ok p = list_all (\<lambda>(u, d). case d of None \<Rightarrow> True | Some x \<Rightarrow> classified x) p"

definition ginv :: "frontier \<times> Task list \<times> ResponseResult list \<Rightarrow> bool" where
  "ginv s = (case s of (processed, put, results) \<Rightarrow>
     frontier_ok processed \<and> list_all (\<lambda>r. classified (outcome_of r)) results)"

text \<open>
  A site with a page that cannot be decoded: the seed page links to \<open>/bin\<close>, whose
  body no charset decodes, and to another host.
\<close>

definition garbled :: web where
  "garbled u =
     (if u = ''http://a.com/'' then ok u [''/bin'', ''http://x.org/'']
      else if u = ''http://a.com/bin''
      then Answer \<lparr>HTTPResponse.status = 200, reason = ''OK'', geturl = u,
                   content_charset = Some ''ascii'', decode = (\<lambda>charset. None)\<rparr>
      else ok u [])"

definition garbled_tasks :: "Task list" where
  "garbled_tasks =
     [\<lparr>Task.url = ''http://a.com/'', collect_links = True\<rparr>,
      \<lparr>Task.url = ''http://a.com/bin'', collect_links = True\<rparr>,
      \<lparr>Task.url = ''http://x.org/'', collect_links = False\<rparr>]"

definition garbled_frontier :: frontier where
  "garbled_frontier =
     [(''http://a.com/'', Some \<lparr>Outcome.status = Some 200, error = ''''\<rparr>),
      (''http://a.com/bin'', None), (''http://x.org/'', None)]"

definition garbled_bin :: HTTPResponse where
  "garbled_bin =
     \<lparr>HTTPResponse.status = 200, reason = ''OK'', geturl = ''http://a.com/bin'',
      content_charset = Some ''ascii'', decode = (\<lambda>charset. None)\<rparr>"

definition garbled_drained :: coord where
  "garbled_drained =
     \<lparr>processed_urls = garbled_frontier,
      task_queue = [\<lparr>Task.url = ''http://a.com/bin'', collect_links = True\<rparr>,
                    \<lparr>Task.url = ''http://x.org/'', collect_links = False\<rparr>],
      has_tasks = True, num = 2\<rparr>"

text \<open>
  The task for a URL collects links when the URL is the seed or \<open>is_same_domain\<close>
  holds of it. A URL is reachable when it is the seed, or the result of fetching a
  reachable URL has a link that is not skipped and resolves to it.
\<close>

definition collects :: "string \<Rightarrow> string \<Rightarrow> string \<Rightarrow> bool" where
  "collects root_url base_url u = (u = base_url \<or> is_same_domain u root_url = Some True)"

inductive_set reachable :: "web \<Rightarrow> string \<Rightarrow> string \<Rightarrow> string set"
  for w :: web and root_url :: string and base_url :: string where
  seed: "base_url \<in> reachable w root_url base_url"
| link: "u \<in> reachable w root_url base_url
     \<Longrightarrow> process_page w u (collects root_url base_url u) = Inr r
     \<Longrightarrow> link0 \<in> set (links r)
     \<Longrightarrow> clean_fragments link0 = Some link1
     \<Longrightarrow> \<not> skipped link1
     \<Longrightarrow> resolve_link r link1 = Some l
     \<Longrightarrow> l \<in> reachable w root_url base_url"













text \<open>
  A site whose host has three labels: the seed page links to \<open>/a\<close> on the same host,
  and every other page links to \<open>/deep\<close>.
\<close>

definition www :: web where
  "www u =
     (if u = ''http://www.example.com/'' then ok u [''http://www.example.com/a'']
      else ok u [''/deep''])"

definition www_frontier :: frontier where
  "www_frontier =
     [(''http://www.example.com/'', Some \<lparr>Outcome.status = Some 200, error = ''''\<rparr>),
      (''http://www.example.com/a'', Some \<lparr>Outcome.status = Some 200, error = ''''\<rparr>)]"

definition www_tasks :: "Task list" where
  "www_tasks =
     [\<lparr>Task.url = ''http://www.example.com/'', collect_links = True\<rparr>,
      \<lparr>Task.url = ''http://www.example.com/a'', collect_links = False\<rparr>]"

definition www_expanded :: coord where
  "www_expanded =
     \<lparr>processed_urls = [(''http://www.example.com/a'', None)],
      task_queue = [\<lparr>Task.url = ''http://www.example.com/a'', collect_links = False\<rparr>],
      has_tasks = True, num = 1\<rparr>"

text \<open>
  What the report should hold, in the words of the specification: an outcome is to be
  reported when its error is not empty, or its status is at least 400, or it has no
  status; \<open>claim_lines\<close> has one line for each such entry and none for a placeholder or
  any other entry.
\<close>

definition reported :: "Outcome \<Rightarrow> bool" where
  "reported d =
     (Outcome.error d \<noteq> ''''
      \<or> (case Outcome.status d of None \<Rightarrow> True | Some s \<Rightarrow> s \<ge> 400))"

definition claim_lines :: "frontier \<Rightarrow> string list" where
  "claim_lines p =
     concat (map (\<lambda>(u, data). case data of
                                  None \<Rightarrow> []
                                | Some d \<Rightarrow> if reported d then [format_line u d] else []) p)"


definition dead_link_frontier :: frontier where
  "dead_link_frontier =
     [(''http://a.com/'', Some \<lparr>Outcome.status = Some 200, error = ''''\<rparr>),
      (''http://a.com/b'', Some \<lparr>Outcome.status = Some 200, error = ''''\<rparr>),
      (''http://gone.org/'',
       Some \<lparr>Outcome.status = None, error = ''Network error: timed out''\<rparr>),
      (''http://a.com/c'', None)]"


definition dead_link_report :: "string list" where
  "dead_link_report =
     [''Bad or broken links:'',
      [CHR 0x22] @ ''http://gone.org/'' @ [CHR 0x22]
        @ '' status:None error:Network error: timed out'']"

section \<open>Properties\<close>

subsection \<open>The base of a relative link\<close>

text \<open>
  C1. The claim: a relative link is resolved against the final URL when the fetch was
  redirected, and against the requested URL otherwise. The code does the opposite of its
  own test: with a non-empty \<open>result.redirect\<close> it joins the link to \<open>result.url\<close>.
  For a page requested at \<open>http://a.com/old/page\<close> and delivered, after a redirect, from
  \<open>http://a.com/new/page\<close>, the link \<open>next\<close> becomes \<open>http://a.com/old/next\<close>.
\<close>

theorem relative_link_joined_to_requested_url:
  "resolve_link (fetched ''http://a.com/old/page'' ''http://a.com/new/page'' [''next'']) ''next''
     = Some ''http://a.com/old/next''"
  by code_simp

subsection \<open>The seed\<close>

text \<open>
  C6. The claim: \<open>get_base_url\<close> keeps the query of its input. The code keeps the first
  three components of \<open>urlsplit\<close> only, so the query is lost together with the fragment;
  the docstring's own example gives \<open>http://aa.com/1/2/3.html\<close>.
\<close>

theorem get_base_url_drops_query:
  "get_base_url ''aa.com/1/2/3.html?p1=1&p2=2#tag'' = Some ''http://aa.com/1/2/3.html''"
  by code_simp

subsection \<open>Links that are skipped\<close>

text \<open>
  C7, as stated, fails: a link with the scheme \<open>ftp:\<close> passes the check of line 221,
  enters \<open>processed_urls\<close> and gets a task.
\<close>

theorem ftp_link_gets_a_task:
  "expand_link ''http://a.com'' (fetched ''http://a.com/'' ''http://a.com/'' [''ftp://x.com/f''])
     idle ''ftp://x.com/f''
   = Continue \<lparr>processed_urls = [(''ftp://x.com/f'', None)],
        task_queue = [\<lparr>Task.url = ''ftp://x.com/f'', collect_links = False\<rparr>],
        has_tasks = True, num = 1\<rparr>"
  by code_simp

text \<open>
  C7, amended: a link that after \<open>clean_fragments\<close> is empty or starts with
  \<open>javascript:\<close>, \<open>mailto:\<close> or \<open>whatsapp:\<close> is dropped: the coordinator's state,
  and so \<open>processed_urls\<close> and the task queue, stays as it was.
\<close>

theorem skipped_link_changes_nothing:
  assumes "clean_fragments link0 = Some link1"
    and "link1 = '''' \<or> startswith link1 ''javascript:'' \<or> startswith link1 ''mailto:''
           \<or> startswith link1 ''whatsapp:''"
  shows "expand_link root_url result st link0 = Continue st"
  using assms by (simp add: expand_link_def skipped_def)

theorem skipped_link_changes_nothing_witness:
  "clean_fragments ''mailto:foo@bar.com#top'' = Some ''mailto:foo@bar.com''
   \<and> startswith ''mailto:foo@bar.com'' ''mailto:''
   \<and> expand_link ''http://example.com''
         (fetched ''http://example.com/'' ''http://example.com/'' [''mailto:foo@bar.com#top''])
         idle ''mailto:foo@bar.com#top'' = Continue idle"
proof -
  have c: "clean_fragments ''mailto:foo@bar.com#top'' = Some ''mailto:foo@bar.com''"
    by code_simp
  have s: "startswith ''mailto:foo@bar.com'' ''mailto:''"
    by (simp add: startswith_def)
  from skipped_link_changes_nothing [OF c] s show ?thesis
    using c by blast
qed

subsection \<open>The loop and its passes\<close>

text \<open>A run of the loop ends with \<open>r\<close> exactly when some number of passes ends with it.\<close>

lemma main_loop_passes:
  assumes "main_loop w order root_url s = Some r"
  shows "\<exists>n. after_passes n w order root_url s = Inl r"
  using assms
proof (induction w order root_url s r rule: main_loop.raw_induct)
  case (1 loop w order root_url s r)
  show ?case
  proof (cases "pass w root_url s")
    case (Inl a)
    with 1(2) have "after_passes (Suc 0) w order root_url s = Inl r" by simp
    then show ?thesis by blast
  next
    case (Inr b)
    obtain p put rs where b: "b = (p, put, rs)" by (cases b) auto
    from 1(2) Inr b have "loop w order root_url (p, put, order rs) = Some r" by simp
    then have run: "loop w order root_url (p, put, order rs) = Some r" .
    have "main_loop w order root_url s = main_loop w order root_url (p, put, order rs)"
      using Inr b by (subst main_loop.simps) simp
    with 1 have "main_loop w order root_url (p, put, order rs) = Some r" by simp
    from 1(1) [OF run this] obtain n where "after_passes n w order root_url (p, put, order rs) = Inl r"
      by blast
    with Inr b have "after_passes (Suc n) w order root_url s = Inl r" by simp
    then show ?thesis by blast
  qed
qed (rule assms)

lemma passes_main_loop:
  "after_passes n w order root_url s = Inl r \<Longrightarrow> main_loop w order root_url s = Some r"
proof (induction n arbitrary: s)
  case 0
  then show ?case by simp
next
  case (Suc n)
  show ?case
  proof (cases "pass w root_url s")
    case (Inl a)
    with Suc.prems show ?thesis by (subst main_loop.simps) simp
  next
    case (Inr b)
    obtain p put rs where b: "b = (p, put, rs)" by (cases b) auto
    with Suc.prems Inr have "after_passes n w order root_url (p, put, order rs) = Inl r" by simp
    from Suc.IH [OF this] Inr b show ?thesis by (subst main_loop.simps) simp
  qed
qed

lemma keys_update: "fst ` set (AList.update k v p) = insert k (fst ` set p)"
  by (induction p) auto

lemma state_of_simps [simp]: "state_of (Continue st) = st" "state_of (ValueError st) = st"
  by (simp_all add: state_of_def)

lemma expand_link_cases:
  "state_of (expand_link root_url result st link0) = st
   \<or> (\<exists>link. \<not> known (processed_urls st) link
         \<and> processed_urls (state_of (expand_link root_url result st link0))
             = AList.update link None (processed_urls st)
         \<and> has_tasks (state_of (expand_link root_url result st link0))
         \<and> (task_queue (state_of (expand_link root_url result st link0)) = task_queue st
              \<and> expand_link root_url result st link0
                   = ValueError (state_of (expand_link root_url result st link0))
            \<or> (\<exists>same. task_queue (state_of (expand_link root_url result st link0))
                  = task_queue st @ [\<lparr>Task.url = link, collect_links = same\<rparr>]
                  \<and> is_same_domain link root_url = Some same)))"
  by (auto simp: expand_link_def Let_def split: option.splits)

lemma tinv_expand_link:
  assumes "tinv put st"
  shows "tinv put (state_of (expand_link root_url result st link0))"
proof -
  define st' where "st' = state_of (expand_link root_url result st link0)"
  from expand_link_cases [of root_url result st link0]
  consider "st' = st"
    | link where "link \<notin> fst ` set (processed_urls st)"
        "processed_urls st' = AList.update link None (processed_urls st)"
        "task_queue st' = task_queue st"
    | link same where "link \<notin> fst ` set (processed_urls st)"
        "processed_urls st' = AList.update link None (processed_urls st)"
        "task_queue st' = task_queue st @ [\<lparr>Task.url = link, collect_links = same\<rparr>]"
    unfolding st'_def known_def by blast
  then have "tinv put st'"
  proof cases
    case 1
    with assms show ?thesis by simp
  next
    case 2
    with assms show ?thesis
      by (auto simp: tinv_def urls_put_def keys_update)
  next
    case 3
    from assms have d: "distinct (map Task.url (put @ task_queue st))"
      and sub: "set (map Task.url (put @ task_queue st)) \<subseteq> fst ` set (processed_urls st)"
      unfolding tinv_def urls_put_def by auto
    from sub 3(1) have "link \<notin> set (map Task.url (put @ task_queue st))" by blast
    with d have "distinct (map Task.url (put @ task_queue st) @ [link])" by simp
    moreover from sub have "set (map Task.url (put @ task_queue st) @ [link])
        \<subseteq> insert link (fst ` set (processed_urls st))" by auto
    ultimately show ?thesis
      by (simp add: tinv_def urls_put_def keys_update 3(2,3))
  qed
  then show ?thesis by (simp add: st'_def)
qed

lemma tinv_expand_links:
  "tinv put st \<Longrightarrow> tinv put (state_of (expand_links root_url result st ls))"
proof (induction ls arbitrary: st)
  case Nil
  then show ?case by simp
next
  case (Cons l ls)
  from tinv_expand_link [OF Cons.prems, of root_url result l] Cons.IH
  show ?case by (cases "expand_link root_url result st l") (auto)
qed

lemma keys_record_result:
  "fst ` set (record_result p r) = insert (ResponseResult.url r) (fst ` set p)
      \<union> (if redirect r \<noteq> '''' then {redirect r} else {})"
  by (auto simp: record_result_def Let_def keys_update)

lemma tinv_handle_result:
  assumes "distinct (urls_put put st)"
    and "set (urls_put put st) \<subseteq> insert (ResponseResult.url r) (fst ` set (processed_urls st))"
  shows "tinv put (state_of (handle_result root_url st r))"
  unfolding handle_result_def
  apply (rule tinv_expand_links)
  using assms by (auto simp: tinv_def urls_put_def keys_record_result)

lemma tinv_drain:
  assumes "distinct (urls_put put st)"
    and "set (urls_put put st) \<subseteq> fst ` set (processed_urls st)
          \<union> (case rs of [] \<Rightarrow> {} | r # rest \<Rightarrow> {ResponseResult.url r})"
  shows "distinct (urls_put put (state_of (drain root_url st rs)))
     \<and> (rs \<noteq> [] \<longrightarrow> tinv put (state_of (drain root_url st rs)))"
  using assms
proof (induction rs arbitrary: st)
  case Nil
  then show ?case by simp
next
  case (Cons r rs)
  have t: "tinv put (state_of (handle_result root_url st r))"
    using Cons.prems by (intro tinv_handle_result) auto
  show ?case
  proof (cases "handle_result root_url st r")
    case (Continue st')
    with t have t': "tinv put st'" by simp
    then have "distinct (urls_put put st')" 
      and "set (urls_put put st') \<subseteq> fst ` set (processed_urls st') \<union> (case rs of [] \<Rightarrow> {} | r # rest \<Rightarrow> {ResponseResult.url r})"
      by (auto simp: tinv_def)
    from Cons.IH [OF this] t' Continue show ?thesis by (cases rs) auto
  next
    case (ValueError st')
    with t show ?thesis by (simp add: tinv_def)
  qed
qed

lemma pass_tasks:
  assumes "pinv s"
  shows "case pass w root_url s of
           Inl r \<Rightarrow> distinct (map Task.url (tasks_of r))
         | Inr (processed, put, rs) \<Rightarrow>
             distinct (map Task.url put) \<and> set (map Task.url put) \<subseteq> fst ` set processed"
proof -
  obtain p put results where s: "s = (p, put, results)" by (cases s) auto
  define st0 where "st0 = \<lparr>processed_urls = p, task_queue = [], has_tasks = False, num = 0\<rparr>"
  define d where "d = drain root_url st0 results"
  from assms s have pre: "distinct (urls_put put st0)"
    "set (urls_put put st0) \<subseteq> fst ` set (processed_urls st0)
          \<union> (case results of [] \<Rightarrow> {} | r # rest \<Rightarrow> {ResponseResult.url r})"
    by (auto simp: pinv_def urls_put_def st0_def)
  from tinv_drain [OF pre, of root_url]
  have dist: "distinct (urls_put put (state_of d))"
    and t: "results \<noteq> [] \<Longrightarrow> tinv put (state_of d)"
    by (auto simp: d_def)
  have nil: "results = [] \<Longrightarrow> d = Continue st0" by (simp add: d_def)
  show ?thesis
  proof (cases d)
    case (ValueError st)
    with dist show ?thesis
      by (simp add: s pass_def st0_def [symmetric] d_def [symmetric] urls_put_def)
  next
    case (Continue st)
    show ?thesis
    proof (cases "results = []")
      case True
      with nil Continue have "st = st0" by simp
      with Continue dist show ?thesis
        by (simp add: s pass_def st0_def [symmetric] d_def [symmetric] urls_put_def
            split: option.splits) (simp add: st0_def)
    next
      case False
      from t [OF False] Continue have "tinv put st" by simp
      with Continue show ?thesis
        by (auto simp: s pass_def st0_def [symmetric] d_def [symmetric] urls_put_def tinv_def
            split: option.splits)
    qed
  qed
qed

lemma after_passes_tasks:
  assumes "pinv s"
  shows "case after_passes n w order root_url s of
           Inl r \<Rightarrow> distinct (map Task.url (tasks_of r))
         | Inr (processed, put, rs) \<Rightarrow> distinct (map Task.url put)"
  using assms
proof (induction n arbitrary: s)
  case 0
  then show ?case by (auto simp: pinv_def)
next
  case (Suc n)
  show ?case
  proof (cases "pass w root_url s")
    case (Inl r)
    with pass_tasks [OF Suc.prems, of w root_url] show ?thesis by simp
  next
    case (Inr b)
    obtain p put rs where b: "b = (p, put, rs)" by (cases b) auto
    with pass_tasks [OF Suc.prems, of w root_url] Inr have "pinv (p, put, order rs)"
      by (auto simp: pinv_def)
    from Suc.IH [OF this] Inr b show ?thesis by simp
  qed
qed

lemma process_page_url: "process_page w u c = Inr r \<Longrightarrow> ResponseResult.url r = u"
  by (auto simp: process_page_def Let_def split: opened.splits if_splits option.splits)

lemma schedule_single: "is_schedule order \<Longrightarrow> order [r] = [r]"
  by (metis is_schedule_def mset_single_iff_right mset.simps(1) mset.simps(2) mset_zero_iff)

lemma schedule_set: "is_schedule order \<Longrightarrow> set (order rs) = set rs"
  by (metis is_schedule_def set_mset_mset)

lemma seeding_pinv:
  assumes "is_schedule order" and "seeding w b = Inr (root_url, p, put, rs)"
  shows "pinv (p, put, order rs)"
proof -
  from assms(2) obtain base r where "p = []" "put = [\<lparr>Task.url = base, collect_links = True\<rparr>]"
    "rs = [r]" "process_page w base True = Inr r"
    by (auto simp: seeding_def split: option.splits if_splits sum.splits)
  with schedule_single [OF assms(1)] process_page_url show ?thesis
    by (simp add: pinv_def)
qed

lemma seeding_tasks: "seeding w b = Inl r \<Longrightarrow> distinct (map Task.url (tasks_of r))"
  by (auto simp: seeding_def split: option.splits if_splits)

lemma site_run:
  "main site id ''a.com/'' = Some (DONE site_frontier (Inr [''Bad or broken links:'']) site_tasks)"
  by code_simp

lemma site_seeding: "seeding site ''a.com/'' = Inr (''http://a.com'', site_seeded)"
  by code_simp

lemma site_first_pass: "after_passes 1 site id ''http://a.com'' site_seeded = Inr site_after_one"
  by code_simp

lemma schedule_id: "is_schedule id"
  by (simp add: is_schedule_def)

subsection \<open>No URL gets two tasks\<close>

text \<open>
  C3. Over a whole run no URL gets more than one task: in a run that has ended (in
  \<open>DONE\<close>, or with a worker lost, or with the main thread lost) the tasks put with the
  URL \<open>u\<close> are at most one, and the same holds after any number of passes of a run that
  goes on. The seed counts, and so does a URL that was first seen as the final URL of a
  response. The results of a batch may arrive in any order. The last part does not depend
  on passes at all: whatever results the main thread drains after the seed's, in whatever
  order, the seed task and the tasks put while draining have different URLs.
\<close>

theorem no_url_gets_two_tasks:
  assumes "is_schedule order"
  shows "(main w order base_url_string = Some r
            \<longrightarrow> length (filter (\<lambda>t. Task.url t = u) (tasks_of r)) \<le> 1)
       \<and> (seeding w base_url_string = Inr (root_url, p0, put0, rs0)
            \<longrightarrow> after_passes n w order root_url (p0, put0, order rs0) = Inr (p, put, rs)
            \<longrightarrow> length (filter (\<lambda>t. Task.url t = u) put) \<le> 1)
       \<and> (ResponseResult.url seed_result = seed_url
            \<longrightarrow> length (filter (\<lambda>t. Task.url t = u)
                  (\<lparr>Task.url = seed_url, collect_links = True\<rparr>
                     # task_queue (state_of (drain root idle (seed_result # results))))) \<le> 1)"
proof -
  have count: "length (filter (\<lambda>t. Task.url t = u) ts) \<le> 1"
    if "distinct (map Task.url ts)" for ts :: "Task list"
    using that by (induction ts) (auto simp: filter_empty_conv image_iff)
  have "distinct (map Task.url (tasks_of r))" if run: "main w order base_url_string = Some r"
  proof (cases "seeding w base_url_string")
    case (Inl a)
    with run seeding_tasks show ?thesis by (auto simp: main_def)
  next
    case (Inr b)
    obtain root p0 put0 rs0 where b: "b = (root, p0, put0, rs0)" by (cases b) auto
    with run Inr have "main_loop w order root (p0, put0, order rs0) = Some r"
      by (simp add: main_def)
    from main_loop_passes [OF this] obtain k
      where "after_passes k w order root (p0, put0, order rs0) = Inl r" by blast
    moreover from seeding_pinv [OF assms] Inr b have "pinv (p0, put0, order rs0)" by blast
    from after_passes_tasks [OF this, of k w order root]
    have "case after_passes k w order root (p0, put0, order rs0) of
            Inl r \<Rightarrow> distinct (map Task.url (tasks_of r))
          | Inr (processed, put, rs) \<Rightarrow> distinct (map Task.url put)" .
    ultimately show ?thesis by simp
  qed
  moreover have "distinct (map Task.url put)"
    if "seeding w base_url_string = Inr (root_url, p0, put0, rs0)"
      and "after_passes n w order root_url (p0, put0, order rs0) = Inr (p, put, rs)"
    using after_passes_tasks [OF seeding_pinv [OF assms that(1)], of n w order root_url] that(2)
    by simp
  moreover have "distinct (map Task.url (\<lparr>Task.url = seed_url, collect_links = True\<rparr>
                     # task_queue (state_of (drain root idle (seed_result # results)))))"
    if "ResponseResult.url seed_result = seed_url"
  proof -
    have "distinct (urls_put [\<lparr>Task.url = seed_url, collect_links = True\<rparr>] idle)"
      by (simp add: urls_put_def idle_def)
    moreover have "set (urls_put [\<lparr>Task.url = seed_url, collect_links = True\<rparr>] idle)
        \<subseteq> fst ` set (processed_urls idle)
          \<union> (case seed_result # results of [] \<Rightarrow> {} | r # rest \<Rightarrow> {ResponseResult.url r})"
      using that by (simp add: urls_put_def idle_def)
    ultimately have "distinct (urls_put [\<lparr>Task.url = seed_url, collect_links = True\<rparr>]
        (state_of (drain root idle (seed_result # results))))"
      using tinv_drain by blast
    then show ?thesis by (simp add: urls_put_def)
  qed
  ultimately show ?thesis using count by blast
qed

theorem no_url_gets_two_tasks_witness:
  "is_schedule id
   \<and> main site id ''a.com/'' = Some (DONE site_frontier (Inr [''Bad or broken links:'']) site_tasks)
   \<and> length (filter (\<lambda>t. Task.url t = ''http://a.com/b'') site_tasks) \<le> 1
   \<and> seeding site ''a.com/'' = Inr (''http://a.com'', site_seeded)
   \<and> after_passes 1 site id ''http://a.com'' site_seeded = Inr site_after_one
   \<and> length (filter (\<lambda>t. Task.url t = ''http://a.com/b'') (fst (snd site_after_one))) \<le> 1
   \<and> ResponseResult.url (fetched ''http://a.com/'' ''http://a.com/'' [''/b'', ''/b'']) = ''http://a.com/''
   \<and> length (filter (\<lambda>t. Task.url t = ''http://a.com/b'')
         (\<lparr>Task.url = ''http://a.com/'', collect_links = True\<rparr>
            # task_queue (state_of (drain ''http://a.com'' idle
                (fetched ''http://a.com/'' ''http://a.com/'' [''/b'', ''/b'']
                   # [fetched ''http://a.com/b'' ''http://a.com/'' [''/b'']]))))) \<le> 1"
proof -
  note t = no_url_gets_two_tasks [OF schedule_id, where w = site
      and base_url_string = "''a.com/''"
      and r = "DONE site_frontier (Inr [''Bad or broken links:'']) site_tasks"
      and u = "''http://a.com/b''" and root_url = "''http://a.com''"
      and ?p0.0 = "fst site_seeded" and ?put0.0 = "fst (snd site_seeded)"
      and ?rs0.0 = "snd (snd site_seeded)" and n = 1
      and p = "fst site_after_one" and put = "fst (snd site_after_one)"
      and rs = "snd (snd site_after_one)"
      and seed_result = "fetched ''http://a.com/'' ''http://a.com/'' [''/b'', ''/b'']"
      and seed_url = "''http://a.com/''" and root = "''http://a.com''"
      and results = "[fetched ''http://a.com/b'' ''http://a.com/'' [''/b'']]"]
  have "ResponseResult.url (fetched ''http://a.com/'' ''http://a.com/'' [''/b'', ''/b''])
      = ''http://a.com/''"
    by (simp add: fetched_def)
  with t site_run site_seeding site_first_pass schedule_id show ?thesis
    by simp
qed

subsection \<open>What a fetch can record\<close>

lemma process_page_classified:
  "process_page w u c = Inr r \<Longrightarrow> classified (outcome_of r)"
  by (auto simp: process_page_def urlopen_def Let_def classified_def outcome_of_def
      split: exchange.splits if_splits option.splits opened.splits)

lemma frontier_ok_update:
  "frontier_ok p \<Longrightarrow> (case v of None \<Rightarrow> True | Some x \<Rightarrow> classified x)
     \<Longrightarrow> frontier_ok (AList.update k v p)"
  by (induction p) (auto simp: frontier_ok_def)

lemma frontier_ok_record_result:
  "frontier_ok p \<Longrightarrow> classified (outcome_of r) \<Longrightarrow> frontier_ok (record_result p r)"
  by (simp add: record_result_def Let_def frontier_ok_update)

lemma frontier_ok_expand_link:
  "frontier_ok (processed_urls st)
     \<Longrightarrow> frontier_ok (processed_urls (state_of (expand_link root_url result st link0)))"
  using expand_link_cases [of root_url result st link0]
  by (auto simp: frontier_ok_update)

lemma frontier_ok_expand_links:
  "frontier_ok (processed_urls st)
     \<Longrightarrow> frontier_ok (processed_urls (state_of (expand_links root_url result st ls)))"
proof (induction ls arbitrary: st)
  case Nil
  then show ?case by simp
next
  case (Cons l ls)
  from frontier_ok_expand_link [OF Cons.prems, of root_url result l] Cons.IH
  show ?case by (cases "expand_link root_url result st l") auto
qed

lemma frontier_ok_drain:
  "frontier_ok (processed_urls st) \<Longrightarrow> list_all (\<lambda>r. classified (outcome_of r)) rs
     \<Longrightarrow> frontier_ok (processed_urls (state_of (drain root_url st rs)))"
proof (induction rs arbitrary: st)
  case Nil
  then show ?case by simp
next
  case (Cons r rs)
  from Cons.prems have "frontier_ok (processed_urls (state_of (handle_result root_url st r)))"
    by (simp add: handle_result_def frontier_ok_expand_links frontier_ok_record_result)
  with Cons.IH Cons.prems(2) show ?case
    by (cases "handle_result root_url st r") auto
qed

lemma run_workers_classified:
  "run_workers w ts = Some rs \<Longrightarrow> list_all (\<lambda>r. classified (outcome_of r)) rs"
proof (induction ts arbitrary: rs)
  case Nil
  then show ?case by simp
next
  case (Cons t ts)
  then show ?case
    by (auto split: sum.splits dest: process_page_classified)
qed

lemma print_loop_returns:
  "frontier_ok p \<Longrightarrow> \<exists>lines. print_loop out p = Inr lines"
  by (induction p arbitrary: out) (auto simp: frontier_ok_def classified_def split: option.splits)

lemma pass_classified:
  assumes "ginv s"
  shows "case pass w root_url s of
           Inl r \<Rightarrow> (\<forall>p out ts. r = DONE p out ts \<longrightarrow> frontier_ok p \<and> (\<exists>lines. out = Inr lines))
         | Inr (processed, put, rs) \<Rightarrow>
             frontier_ok processed \<and> list_all (\<lambda>r. classified (outcome_of r)) rs"
proof -
  obtain p put results where s: "s = (p, put, results)" by (cases s) auto
  define st0 where "st0 = \<lparr>processed_urls = p, task_queue = [], has_tasks = False, num = 0\<rparr>"
  define d where "d = drain root_url st0 results"
  from assms s have "frontier_ok (processed_urls (state_of d))"
    unfolding d_def by (intro frontier_ok_drain) (auto simp: ginv_def st0_def)
  then show ?thesis
    using print_loop_returns run_workers_classified
    by (cases d) (auto simp: s pass_def st0_def [symmetric] d_def [symmetric] print_results_def
        split: option.splits)
qed

lemma after_passes_classified:
  assumes "is_schedule order" and "ginv s"
  shows "case after_passes n w order root_url s of
           Inl r \<Rightarrow> (\<forall>p out ts. r = DONE p out ts \<longrightarrow> (\<exists>lines. out = Inr lines))
         | Inr (processed, put, rs) \<Rightarrow> frontier_ok processed"
  using assms(2)
proof (induction n arbitrary: s)
  case 0
  then show ?case by (auto simp: ginv_def)
next
  case (Suc n)
  show ?case
  proof (cases "pass w root_url s")
    case (Inl r)
    with pass_classified [OF Suc.prems, of w root_url] show ?thesis by simp
  next
    case (Inr b)
    obtain p put rs where b: "b = (p, put, rs)" by (cases b) auto
    with pass_classified [OF Suc.prems, of w root_url] Inr have "ginv (p, put, order rs)"
      by (simp add: ginv_def list_all_iff schedule_set [OF assms(1)])
    from Suc.IH [OF this] Inr b show ?thesis by simp
  qed
qed

lemma seeding_ginv:
  assumes "is_schedule order" and "seeding w b = Inr (root_url, p, put, rs)"
  shows "ginv (p, put, order rs)"
proof -
  from assms(2) obtain ts where "p = []" "run_workers w ts = Some rs"
    by (auto simp: seeding_def simp del: run_workers.simps split: option.splits if_splits)
  with run_workers_classified [of w ts rs] show ?thesis
    by (simp add: ginv_def frontier_ok_def list_all_iff schedule_set [OF assms(1)])
qed

lemma site_seed_page:
  "process_page site ''http://a.com/'' True
     = Inr (fetched ''http://a.com/'' ''http://a.com/''
              [''/b'', ''http://x.org/#top'', ''mailto:x@y'', ''/b#top''])"
  by code_simp

text \<open>
  C10. A result of \<open>process_page\<close> has either a status below 400 and an empty error,
  or no status and a non-empty error, never both and never neither. So in every
  \<open>processed_urls\<close> that a run reaches at the end of a pass, and in the one handed to
  \<open>print_results\<close>, the comparison \<open>data['status'] > 400\<close> meets a status that is
  present: \<open>print_results\<close> returns and does not raise.
\<close>

theorem fetch_outcomes_are_classified:
  assumes "is_schedule order"
  shows "(process_page w u c = Inr r \<longrightarrow>
            ((\<exists>s. ResponseResult.status r = Some s \<and> s < 400) \<and> ResponseResult.error r = '''')
              \<noteq> (ResponseResult.status r = None \<and> ResponseResult.error r \<noteq> ''''))
       \<and> (main w order base_url_string = Some (DONE p out ts) \<longrightarrow> (\<exists>lines. out = Inr lines))
       \<and> (seeding w base_url_string = Inr (root_url, p0, put0, rs0)
            \<longrightarrow> after_passes n w order root_url (p0, put0, order rs0) = Inr (p', put', rs')
            \<longrightarrow> (\<exists>lines. print_results p' = Inr lines))"
proof (intro conjI impI)
  assume "process_page w u c = Inr r"
  from process_page_classified [OF this]
  show "((\<exists>s. ResponseResult.status r = Some s \<and> s < 400) \<and> ResponseResult.error r = '''')
          \<noteq> (ResponseResult.status r = None \<and> ResponseResult.error r \<noteq> '''')"
    by (auto simp: classified_def outcome_of_def split: option.splits)
next
  assume run: "main w order base_url_string = Some (DONE p out ts)"
  show "\<exists>lines. out = Inr lines"
  proof (cases "seeding w base_url_string")
    case (Inl a)
    with run show ?thesis by (auto simp: main_def seeding_def split: option.splits if_splits)
  next
    case (Inr b)
    obtain root p0 put0 rs0 where b: "b = (root, p0, put0, rs0)" by (cases b) auto
    with run Inr have "main_loop w order root (p0, put0, order rs0) = Some (DONE p out ts)"
      by (simp add: main_def)
    from main_loop_passes [OF this] obtain k
      where k: "after_passes k w order root (p0, put0, order rs0) = Inl (DONE p out ts)" by blast
    from seeding_ginv [OF assms] Inr b have "ginv (p0, put0, order rs0)" by blast
    from after_passes_classified [OF assms this, of k w root] k show ?thesis by simp
  qed
next
  assume s: "seeding w base_url_string = Inr (root_url, p0, put0, rs0)"
    and a: "after_passes n w order root_url (p0, put0, order rs0) = Inr (p', put', rs')"
  from after_passes_classified [OF assms seeding_ginv [OF assms s], of n w root_url] a
  have "frontier_ok p'" by simp
  then show "\<exists>lines. print_results p' = Inr lines"
    by (simp add: print_results_def print_loop_returns)
qed

theorem fetch_outcomes_are_classified_witness:
  "is_schedule id
   \<and> process_page site ''http://a.com/'' True
       = Inr (fetched ''http://a.com/'' ''http://a.com/''
                [''/b'', ''http://x.org/#top'', ''mailto:x@y'', ''/b#top''])
   \<and> ResponseResult.status (fetched ''http://a.com/'' ''http://a.com/''
                [''/b'', ''http://x.org/#top'', ''mailto:x@y'', ''/b#top'']) = Some 200
   \<and> main site id ''a.com/'' = Some (DONE site_frontier (Inr [''Bad or broken links:'']) site_tasks)
   \<and> seeding site ''a.com/'' = Inr (''http://a.com'', site_seeded)
   \<and> after_passes 1 site id ''http://a.com'' site_seeded = Inr site_after_one
   \<and> (\<exists>lines. print_results (fst site_after_one) = Inr lines)"
proof -
  have "\<exists>lines. print_results (fst site_after_one) = Inr lines"
    using fetch_outcomes_are_classified [OF schedule_id, of site "''http://a.com/''" True
        "fetched ''http://a.com/'' ''http://a.com/''
           [''/b'', ''http://x.org/#top'', ''mailto:x@y'', ''/b#top'']"
        "''a.com/''" site_frontier "Inr [''Bad or broken links:'']" site_tasks
        "''http://a.com''" "fst site_seeded" "fst (snd site_seeded)" "snd (snd site_seeded)" 1
        "fst site_after_one" "fst (snd site_after_one)" "snd (snd site_after_one)"]
      site_seeding site_first_pass
    by simp
  then show ?thesis
    using schedule_id site_seed_page site_run site_seeding site_first_pass
    by (simp add: fetched_def)
qed

subsection \<open>Outcomes in \<open>processed_urls\<close>\<close>

text \<open>
  C2. The claim: an outcome, once stored, is never replaced by the marker \<open>None\<close>.
  Line 216 stores \<open>None\<close> under \<open>result.redirect\<close> whatever is there; line 217
  restores the outcome of \<open>result.url\<close> only. On the site above, the seed page has its
  outcome after the first pass; the result for \<open>/b\<close>, whose final URL is the seed
  page, then replaces it by \<open>None\<close>, and so the run ends.
\<close>

theorem redirect_target_loses_outcome:
  "after_passes 1 site id ''http://a.com'' site_seeded = Inr site_after_one
   \<and> map_of (fst site_after_one) ''http://a.com/''
       = Some (Some \<lparr>Outcome.status = Some 200, error = ''''\<rparr>)
   \<and> main site id ''a.com/'' = Some (DONE site_frontier (Inr [''Bad or broken links:'']) site_tasks)
   \<and> map_of site_frontier ''http://a.com/'' = Some None"
  using site_first_pass site_run by (simp add: site_after_one_def site_frontier_def)

subsection \<open>A page that cannot be decoded\<close>

text \<open>
  C4, as stated, fails: \<open>process_page\<close> catches \<open>HTTPError\<close> and \<open>URLError\<close>
  only. For the page \<open>/bin\<close> it returns no result at all, and the run stops in the
  \<open>join\<close> of that batch with two URLs still pending.
\<close>

theorem undecodable_page_hangs_the_crawl:
  "process_page garbled ''http://a.com/bin'' True = Inl DecodeError
   \<and> main garbled id ''a.com/'' = Some (HANG garbled_frontier garbled_tasks)"
  by code_simp

lemma run_workers_raise:
  "t \<in> set ts \<Longrightarrow> process_page w (Task.url t) (collect_links t) = Inl e \<Longrightarrow> run_workers w ts = None"
  by (induction ts) (auto split: sum.splits)

text \<open>
  C4, amended: when the body of an answer cannot be decoded with the declared charset
  (UTF-8 when none is declared), \<open>process_page\<close> raises for a task that collects links
  and gives no result; for a task that does not collect links the body is not decoded,
  and the result has the status of the answer, an empty error and no links. A batch that
  holds the collecting task is never joined: the run hangs in the pass that put the task.
\<close>

theorem decode_error_is_not_caught:
  assumes "urlopen w u = Return response"
    and "decode response (case content_charset response of
                            None \<Rightarrow> ''utf-8''
                          | Some c \<Rightarrow> if c = '''' then ''utf-8'' else c) = None"
  shows "process_page w u True = Inl DecodeError
       \<and> process_page w u False
           = Inr \<lparr>ResponseResult.url = u, status = Some (HTTPResponse.status response),
                  error = '''', links = [], redirect = geturl response\<rparr>
       \<and> (\<lparr>Task.url = u, collect_links = True\<rparr> \<in> set ts \<longrightarrow> run_workers w ts = None)
       \<and> (drain root_url \<lparr>processed_urls = p, task_queue = [], has_tasks = False, num = 0\<rparr>
              results = Continue st
            \<longrightarrow> \<lparr>Task.url = u, collect_links = True\<rparr> \<in> set (task_queue st)
            \<longrightarrow> main_loop w order root_url (p, put, results)
                  = Some (HANG (processed_urls st) (put @ task_queue st)))"
proof -
  from assms(1) have "HTTPResponse.status response < 400"
    by (auto simp: urlopen_def split: exchange.splits if_splits)
  with assms have raise: "process_page w u True = Inl DecodeError"
    by (simp add: process_page_def)
  from assms(1) have "process_page w u False
           = Inr \<lparr>ResponseResult.url = u, status = Some (HTTPResponse.status response),
                  error = '''', links = [], redirect = geturl response\<rparr>"
    by (simp add: process_page_def)
  moreover have none: "run_workers w ts = None"
    if "\<lparr>Task.url = u, collect_links = True\<rparr> \<in> set ts" for ts
    using run_workers_raise [OF that] raise by simp
  moreover have "main_loop w order root_url (p, put, results)
                  = Some (HANG (processed_urls st) (put @ task_queue st))"
    if "drain root_url \<lparr>processed_urls = p, task_queue = [], has_tasks = False, num = 0\<rparr>
              results = Continue st"
      and "\<lparr>Task.url = u, collect_links = True\<rparr> \<in> set (task_queue st)"
    using that none [OF that(2)] by (subst main_loop.simps) (simp add: pass_def)
  ultimately show ?thesis using raise by blast
qed

theorem decode_error_is_not_caught_witness:
  "urlopen garbled ''http://a.com/bin'' = Return garbled_bin
   \<and> decode garbled_bin ''ascii'' = None
   \<and> process_page garbled ''http://a.com/bin'' True = Inl DecodeError
   \<and> run_workers garbled garbled_tasks = None
   \<and> drain ''http://a.com'' \<lparr>processed_urls = [], task_queue = [], has_tasks = False, num = 0\<rparr>
         [fetched ''http://a.com/'' ''http://a.com/'' [''/bin'', ''http://x.org/'']]
       = Continue garbled_drained
   \<and> main_loop garbled id ''http://a.com''
         ([], [\<lparr>Task.url = ''http://a.com/'', collect_links = True\<rparr>],
          [fetched ''http://a.com/'' ''http://a.com/'' [''/bin'', ''http://x.org/'']])
       = Some (HANG garbled_frontier garbled_tasks)"
proof -
  have o: "urlopen garbled ''http://a.com/bin'' = Return garbled_bin"
    by (simp add: urlopen_def garbled_def garbled_bin_def)
  have d: "decode garbled_bin (case content_charset garbled_bin of
                            None \<Rightarrow> ''utf-8''
                          | Some c \<Rightarrow> if c = '''' then ''utf-8'' else c) = None"
    by (simp add: garbled_bin_def)
  have dr: "drain ''http://a.com'' \<lparr>processed_urls = [], task_queue = [], has_tasks = False, num = 0\<rparr>
         [fetched ''http://a.com/'' ''http://a.com/'' [''/bin'', ''http://x.org/'']]
       = Continue garbled_drained"
    by code_simp
  have m1: "\<lparr>Task.url = ''http://a.com/bin'', collect_links = True\<rparr> \<in> set garbled_tasks"
    by (simp add: garbled_tasks_def)
  have m2: "\<lparr>Task.url = ''http://a.com/bin'', collect_links = True\<rparr>
      \<in> set (task_queue garbled_drained)"
    by (simp add: garbled_drained_def)
  have t: "[\<lparr>Task.url = ''http://a.com/'', collect_links = True\<rparr>] @ task_queue garbled_drained
      = garbled_tasks" "processed_urls garbled_drained = garbled_frontier"
    by (simp_all add: garbled_drained_def garbled_tasks_def)
  from decode_error_is_not_caught [OF o d, of garbled_tasks "''http://a.com''" "[]"
      "[fetched ''http://a.com/'' ''http://a.com/'' [''/bin'', ''http://x.org/'']]"
      garbled_drained id "[\<lparr>Task.url = ''http://a.com/'', collect_links = True\<rparr>]"]
    dr m1 m2 t o
  show ?thesis by (simp add: garbled_bin_def)
qed

subsection \<open>The loop ends\<close>










lemma startswith_append: "startswith s p \<Longrightarrow> \<exists>x. s = p @ x"
  by (metis append_take_drop_id startswith_def)

lemma split_scheme_http:
  "split_scheme (''http://'' @ x) d = (''http'', ''//'' @ x)"
  "split_scheme (''https://'' @ x) d = (''https'', ''//'' @ x)"
  by (simp_all add: split_scheme_def before_def after_def isalpha_ascii_def scheme_chars_def
      ascii_lower_def ascii_upper_def lower_def lower_char_def)


lemma get_base_url_scheme:
  assumes "get_base_url b = Some base"
  shows "\<exists>scheme nl path. (scheme = ''http'' \<or> scheme = ''https'')
           \<and> base = urlunsplit (scheme, nl, path, '''', '''')"
proof -
  define s where "s = (if \<not> (startswith b ''http://'' \<or> startswith b ''https://'')
               then ''http://'' @ b else b)"
  have "(\<exists>x. s = ''http://'' @ x) \<or> (\<exists>x. s = ''https://'' @ x)"
    unfolding s_def
    using startswith_append [of b "''http://''"] startswith_append [of b "''https://''"]
    by (cases "startswith b ''http://''"; cases "startswith b ''https://''") auto
  then have "fst (split_scheme s '''') = ''http'' \<or> fst (split_scheme s '''') = ''https''"
    using split_scheme_http by auto
  moreover from assms
  have "(case urlsplit s [] of None \<Rightarrow> None
         | Some (scheme, nl, path, query, fragment) \<Rightarrow>
             Some (urlunsplit (scheme, nl, path, [], []))) = Some base"
    unfolding get_base_url_def Let_def s_def .
  then obtain scheme nl path q f
    where "urlsplit s [] = Some (scheme, nl, path, q, f)"
      and "base = urlunsplit (scheme, nl, path, [], [])"
    by (auto split: option.splits)
  moreover from this(1) have "scheme = fst (split_scheme s '''')"
    by (auto simp: urlsplit_def Let_def split: prod.splits if_splits)
  ultimately show ?thesis by auto
qed














subsection \<open>Which tasks collect links\<close>

text \<open>
  \<open>root_url\<close> is built from the last two labels of the seed's network location, and
  \<open>is_same_domain\<close> compares a link's network location with that of \<open>root_url\<close>.
\<close>

lemma set_split_on: "w \<in> set (split_on c s) \<Longrightarrow> set w \<subseteq> set s"
proof (induction s arbitrary: w)
  case Nil
  then show ?case by simp
next
  case (Cons x xs)
  then show ?case
    by (cases "split_on c xs") (fastforce split: if_splits)+
qed

lemma set_join: "set (join sep ws) \<subseteq> set sep \<union> \<Union> (set ` set ws)"
  by (induction sep ws rule: join.induct) auto

lemma set_last_two: "set (last_two xs) \<subseteq> set xs"
  by (simp add: last_two_def set_drop_subset)

lemma domain_chars:
  "set (join ''.'' (last_two (split_on CHR ''.'' nl))) \<subseteq> insert CHR ''.'' (set nl)"
proof -
  have "\<Union> (set ` set (last_two (split_on CHR ''.'' nl))) \<subseteq> set nl"
    using set_last_two [of "split_on CHR ''.'' nl"] set_split_on [of _ "CHR ''.''" nl] by blast
  with set_join [of "''.''" "last_two (split_on CHR ''.'' nl)"] show ?thesis by auto
qed

lemma urlsplit_netloc_chars:
  assumes "urlsplit u d = Some (scheme, nl, rest)"
  shows "\<forall>c \<in> set nl. \<not> is_delim c"
  using assms
  by (auto simp: urlsplit_def Let_def splitnetloc_def split: prod.splits if_splits
      dest: set_takeWhileD)

lemma urlparse_urlsplit:
  "urlparse u d = Some (scheme, nl, rest) \<Longrightarrow> \<exists>rest'. urlsplit u d = Some (scheme, nl, rest')"
  by (auto simp: urlparse_def split: option.splits prod.splits if_splits)

lemma urlsplit_http:
  assumes "u = ''http://'' @ x \<or> u = ''https://'' @ x"
    and "urlsplit u d = Some (scheme, nl, rest)"
  shows "scheme = ''http'' \<or> scheme = ''https''"
  using assms split_scheme_http
  by (auto simp: urlsplit_def Let_def split: prod.splits if_splits)

lemma urlunsplit_http:
  assumes "scheme = ''http'' \<or> scheme = ''https''"
  shows "\<exists>x. urlunsplit (scheme, nl, path, q, f) = scheme @ ''://'' @ x"
  using assms by (auto simp: urlunsplit_def Let_def uses_netloc_def)

lemma root_netloc:
  assumes s: "scheme = ''http'' \<or> scheme = ''https''"
    and d: "\<forall>c \<in> set domain. \<not> is_delim c"
    and p: "urlparse (urlunsplit (scheme, domain, '''', '''', '''')) '''' = Some pr"
  shows "netloc pr = domain"
proof -
  from s have u: "urlunsplit (scheme, domain, '''', '''', '''') = scheme @ ''://'' @ domain"
    by (auto simp: urlunsplit_def Let_def uses_netloc_def)
  from d have t: "takeWhile (\<lambda>c. \<not> is_delim c) domain = domain"
    by (simp add: takeWhile_eq_all_conv)
  from d have t': "dropWhile (\<lambda>c. \<not> is_delim c) domain = []"
    by simp
  from s have sp: "split_scheme (scheme @ ''://'' @ domain) [] = (scheme, ''//'' @ domain)"
    using split_scheme_http by auto
  have "urlsplit (scheme @ ''://'' @ domain) [] =
      (if invalid_netloc domain then None else Some (scheme, domain, [], [], []))"
    unfolding urlsplit_def sp
    by (simp add: splitnetloc_def t t' before_def after_def Let_def)
  with p show ?thesis
    unfolding u by (auto simp: urlparse_def netloc_def split: if_splits)
qed

lemma seed_root_netloc:
  assumes "get_base_url b = Some base" and "get_root_url base = Some root"
    and "urlparse root '''' = Some pr"
  shows "\<exists>scheme nl rest. urlparse base '''' = Some (scheme, nl, rest)
           \<and> netloc pr = join ''.'' (last_two (split_on CHR ''.'' nl))"
proof -
  from assms(2) obtain scheme nl rest where pb: "urlparse base '''' = Some (scheme, nl, rest)"
    and root: "root = urlunsplit (scheme, join ''.'' (last_two (split_on CHR ''.'' nl)), '''', '''', '''')"
    by (auto simp: get_root_url_def Let_def split: option.splits)
  from urlparse_urlsplit [OF pb] obtain rest' where sb: "urlsplit base '''' = Some (scheme, nl, rest')"
    by blast
  from get_base_url_scheme [OF assms(1)] obtain scheme0 nl0 path0
    where s0: "scheme0 = ''http'' \<or> scheme0 = ''https''"
      and b: "base = urlunsplit (scheme0, nl0, path0, '''', '''')" by blast
  from urlunsplit_http [OF s0, of nl0 path0 "''''" "''''"] obtain x
    where "urlunsplit (scheme0, nl0, path0, '''', '''') = scheme0 @ ''://'' @ x" by blast
  with s0 b have "base = ''http://'' @ x \<or> base = ''https://'' @ x" by auto
  from urlsplit_http [OF this sb] have s: "scheme = ''http'' \<or> scheme = ''https''" .
  from urlsplit_netloc_chars [OF sb] domain_chars [of nl]
  have d: "\<forall>c \<in> set (join ''.'' (last_two (split_on CHR ''.'' nl))). \<not> is_delim c"
    by (auto simp: is_delim_def)
  from assms(3) root
  have "urlparse (urlunsplit (scheme, join ''.'' (last_two (split_on CHR ''.'' nl)),
          '''', '''', '''')) '''' = Some pr" by simp
  from root_netloc [OF s d this] pb show ?thesis by blast
qed

text \<open>
  C8, as stated, fails for a seed whose host has three labels. With the seed
  \<open>www.example.com/\<close> the link \<open>http://www.example.com/a\<close> has the host of the seed
  (\<open>is_same_domain\<close> holds of the two), yet its task is put with \<open>collect_links\<close>
  false, and the link \<open>/deep\<close> on that page is never found.
\<close>

theorem seed_host_link_not_collected:
  "is_same_domain ''http://www.example.com/a'' ''http://www.example.com/'' = Some True
   \<and> main www id ''www.example.com/''
       = Some (DONE www_frontier (Inr [''Bad or broken links:'']) www_tasks)"
  by code_simp

text \<open>
  C8, amended: the task put for a newly discovered link has \<open>collect_links\<close> true
  exactly when the network location of the resolved link is not empty and equals the last
  two dot-separated labels of the seed's network location, joined by a dot. For a seed
  host of at most two labels that is the seed's host; for \<open>www.example.com\<close> it is
  \<open>example.com\<close>.
\<close>

theorem collect_links_follows_root_domain:
  assumes "get_base_url base_url_string = Some base_url"
    and "get_root_url base_url = Some root_url"
    and "expand_link root_url result st link0 = Continue st'"
    and "task_queue st' \<noteq> task_queue st"
  shows "\<exists>link pl scheme nl rest.
           urlparse link '''' = Some pl
           \<and> urlparse base_url '''' = Some (scheme, nl, rest)
           \<and> task_queue st' = task_queue st
                @ [\<lparr>Task.url = link,
                    collect_links = (netloc pl \<noteq> ''''
                      \<and> netloc pl = join ''.'' (last_two (split_on CHR ''.'' nl)))\<rparr>]"
proof -
  from expand_link_cases [of root_url result st link0] assms(3,4)
  obtain link same
    where q: "task_queue st' = task_queue st @ [\<lparr>Task.url = link, collect_links = same\<rparr>]"
      and sd: "is_same_domain link root_url = Some same"
    by auto
  from sd obtain pl pr where pl: "urlparse link '''' = Some pl"
    and pr: "urlparse root_url '''' = Some pr"
    and same: "same = (netloc pl \<noteq> '''' \<and> netloc pl = netloc pr)"
    by (auto simp: is_same_domain_def split: option.splits)
  from seed_root_netloc [OF assms(1,2) pr] obtain scheme nl rest
    where pb: "urlparse base_url '''' = Some (scheme, nl, rest)"
      and nr: "netloc pr = join ''.'' (last_two (split_on CHR ''.'' nl))" by blast
  from q same nr have "task_queue st' = task_queue st
                @ [\<lparr>Task.url = link,
                    collect_links = (netloc pl \<noteq> ''''
                      \<and> netloc pl = join ''.'' (last_two (split_on CHR ''.'' nl)))\<rparr>]"
    by simp
  with pl pb show ?thesis
    by (intro exI [of _ link] exI [of _ pl] exI [of _ scheme] exI [of _ nl] exI [of _ rest])
      simp
qed

theorem collect_links_follows_root_domain_witness:
  "get_base_url ''www.example.com/'' = Some ''http://www.example.com/''
   \<and> get_root_url ''http://www.example.com/'' = Some ''http://example.com''
   \<and> expand_link ''http://example.com''
         (fetched ''http://www.example.com/'' ''http://www.example.com/''
            [''http://www.example.com/a''])
         idle ''http://www.example.com/a'' = Continue www_expanded
   \<and> task_queue www_expanded \<noteq> task_queue idle
   \<and> (\<exists>link pl scheme nl rest.
           urlparse link '''' = Some pl
           \<and> urlparse ''http://www.example.com/'' '''' = Some (scheme, nl, rest)
           \<and> task_queue www_expanded = task_queue idle
                @ [\<lparr>Task.url = link,
                    collect_links = (netloc pl \<noteq> ''''
                      \<and> netloc pl = join ''.'' (last_two (split_on CHR ''.'' nl)))\<rparr>])"
proof -
  have b: "get_base_url ''www.example.com/'' = Some ''http://www.example.com/''"
    by code_simp
  have r: "get_root_url ''http://www.example.com/'' = Some ''http://example.com''"
    by code_simp
  have e: "expand_link ''http://example.com''
         (fetched ''http://www.example.com/'' ''http://www.example.com/''
            [''http://www.example.com/a''])
         idle ''http://www.example.com/a'' = Continue www_expanded"
    by code_simp
  have q: "task_queue www_expanded \<noteq> task_queue idle"
    by (simp add: www_expanded_def idle_def)
  from collect_links_follows_root_domain [OF b r e q] b r e q show ?thesis
    by (intro conjI)
qed

subsection \<open>The report\<close>






lemma dead_link_lines: "''Bad or broken links:'' # claim_lines dead_link_frontier = dead_link_report"
  by code_simp



end
